theory Spec2Isabelle
  imports Main "HOL-Library.Sublist"
begin

section \<open>The service worker of sw.js: data model\<close>

text \<open>
  The worker is written against three platform services: the Cache Storage
  (\<^verbatim>\<open>caches\<close>), the network (\<^verbatim>\<open>fetch\<close>) and IndexedDB. The embedding keeps
  the worker's own control flow and takes the answers of the platform as
  parameters. An \<^verbatim>\<open>async\<close> function returns a promise, which is fulfilled
  with a value, rejected with an error (a \<^verbatim>\<open>throw\<close>), or never settles;
  \<^verbatim>\<open>await\<close> on a promise that never settles never returns.
\<close>

datatype error = FetchError | UrlError | DBError

datatype 'a promise = Fulfilled 'a | Rejected error | Pending

text \<open>
  The \<^verbatim>\<open>date\<close> header of a stored response, as \<^verbatim>\<open>new Date(...)\<close> reads it:
  absent (or the empty string), a time in milliseconds, or a string that
  parses to an invalid date (whose arithmetic is \<^verbatim>\<open>NaN\<close>).
\<close>

datatype date_header = NoDate | DateMs int | BadDate

record request =
  url :: string
  mode :: string

record response =
  r_url :: string
  status :: nat
  date :: date_header
  body :: string

text \<open>
  What the worker asks of the platform besides the caches and the network:
  the URL parser (\<^verbatim>\<open>new URL(u).pathname\<close>, which throws on a string that is
  no URL), the resolution of a relative URL against the worker's location,
  and the clock. Both clock readings of \<^verbatim>\<open>isCacheExpired\<close> are one instant.
\<close>

record platform =
  pathname_of :: "string \<Rightarrow> string option"
  resolve_url :: "string \<Rightarrow> string"
  now :: int

type_synonym network = "request \<Rightarrow> response promise"

subsection \<open>Constants\<close>

definition STATIC_CACHE_NAME :: string where
  "STATIC_CACHE_NAME = ''geniusglider-static-v1.0.0''"

definition DYNAMIC_CACHE_NAME :: string where
  "DYNAMIC_CACHE_NAME = ''geniusglider-dynamic-v1.0.0''"

definition STATIC_FILES :: "string list" where
  "STATIC_FILES =
     [''/'', ''/index.html'', ''/assets/css/critical.css'', ''/assets/css/styles.css'',
      ''/assets/js/app.js'', ''/assets/images/logo.svg'', ''/assets/images/logo-white.svg'',
      ''/manifest.json'']"

definition CACHE_MAX_AGE_static :: int where
  "CACHE_MAX_AGE_static = 30 * 24 * 60 * 60 * 1000"

definition CACHE_MAX_AGE_dynamic :: int where
  "CACHE_MAX_AGE_dynamic = 7 * 24 * 60 * 60 * 1000"

definition CACHE_MAX_AGE_api :: int where
  "CACHE_MAX_AGE_api = 60 * 60 * 1000"

subsection \<open>Strings\<close>

definition startsWith :: "string \<Rightarrow> string \<Rightarrow> bool" where
  "startsWith s p = prefix p s"

fun includes_str :: "string \<Rightarrow> string \<Rightarrow> bool" where
  "includes_str [] p = (p = [])"
| "includes_str (c # cs) p = (prefix p (c # cs) \<or> includes_str cs p)"

subsection \<open>The Cache Storage\<close>

text \<open>
  A cache is a list of entries keyed by request URL (the worker stores GET
  requests only); the storage is the list of named caches in the order of
  their creation, which is the order \<^verbatim>\<open>caches.match\<close> searches them in and
  \<^verbatim>\<open>caches.keys\<close> lists them in. Cache operations themselves do not fail.
\<close>

type_synonym cache = "(string \<times> response) list"
type_synonym cache_storage = "(string \<times> cache) list"

definition cache_match :: "cache \<Rightarrow> string \<Rightarrow> response option" where
  "cache_match c u = map_of c u"

definition cache_put :: "cache \<Rightarrow> string \<Rightarrow> response \<Rightarrow> cache" where
  "cache_put c u r = filter (\<lambda>e. fst e \<noteq> u) c @ [(u, r)]"

fun caches_match :: "cache_storage \<Rightarrow> string \<Rightarrow> response option" where
  "caches_match [] u = None"
| "caches_match ((n, c) # rest) u =
     (case cache_match c u of Some r \<Rightarrow> Some r | None \<Rightarrow> caches_match rest u)"

definition caches_keys :: "cache_storage \<Rightarrow> string list" where
  "caches_keys cs = map fst cs"

definition caches_open :: "cache_storage \<Rightarrow> string \<Rightarrow> cache_storage" where
  "caches_open cs name = (if name \<in> set (caches_keys cs) then cs else cs @ [(name, [])])"

definition partition_of :: "cache_storage \<Rightarrow> string \<Rightarrow> cache" where
  "partition_of cs name = (case map_of cs name of Some c \<Rightarrow> c | None \<Rightarrow> [])"

definition caches_put :: "cache_storage \<Rightarrow> string \<Rightarrow> string \<Rightarrow> response \<Rightarrow> cache_storage" where
  "caches_put cs name u r =
     map (\<lambda>e. if fst e = name then (fst e, cache_put (snd e) u r) else e) (caches_open cs name)"

definition caches_delete :: "cache_storage \<Rightarrow> string \<Rightarrow> cache_storage" where
  "caches_delete cs name = filter (\<lambda>e. fst e \<noteq> name) cs"

text \<open>
  The state of the worker: the caches, and the log of the calls of the
  network primitive made so far.
\<close>

record sw_state =
  caches :: cache_storage
  fetched :: "request list"

definition do_fetch :: "network \<Rightarrow> sw_state \<Rightarrow> request \<Rightarrow> response promise \<times> sw_state" where
  "do_fetch net st rq = (net rq, st\<lparr>fetched := fetched st @ [rq]\<rparr>)"

subsection \<open>JavaScript values and \<^verbatim>\<open>||\<close>\<close>

text \<open>
  The values the \<^verbatim>\<open>return a || b || c\<close> lines choose among: \<^verbatim>\<open>undefined\<close>,
  a response object, or a promise object. Every object is truthy, a promise
  included, whatever it settles to. Returning a promise from an \<^verbatim>\<open>async\<close>
  function makes the function's promise follow it.
\<close>

datatype js_value = JUndefined | JResponse response | JPromise "response option promise"

fun truthy :: "js_value \<Rightarrow> bool" where
  "truthy JUndefined = False"
| "truthy (JResponse r) = True"
| "truthy (JPromise p) = True"

definition js_or :: "js_value \<Rightarrow> js_value \<Rightarrow> js_value" where
  "js_or a b = (if truthy a then a else b)"

fun of_option :: "response option \<Rightarrow> js_value" where
  "of_option None = JUndefined"
| "of_option (Some r) = JResponse r"

fun async_return :: "js_value \<Rightarrow> response option promise" where
  "async_return JUndefined = Fulfilled None"
| "async_return (JResponse r) = Fulfilled (Some r)"
| "async_return (JPromise p) = p"

text \<open>\<^verbatim>\<open>new Response('Offline')\<close>: status 200, no URL, no headers.\<close>

definition offline_response :: response where
  "offline_response = \<lparr>r_url = [], status = 200, date = NoDate, body = ''Offline''\<rparr>"

section \<open>Utility functions\<close>

definition isStaticAsset :: "platform \<Rightarrow> string \<Rightarrow> error + bool" where
  "isStaticAsset pf u =
     (case pathname_of pf u of
        None \<Rightarrow> Inl UrlError
      | Some p \<Rightarrow> Inr (p \<in> set STATIC_FILES \<or> includes_str u ''/assets/''))"

definition getCacheName :: "platform \<Rightarrow> request \<Rightarrow> error + string" where
  "getCacheName pf rq =
     (case isStaticAsset pf (url rq) of
        Inl e \<Rightarrow> Inl e
      | Inr b \<Rightarrow> Inr (if b then STATIC_CACHE_NAME else DYNAMIC_CACHE_NAME))"

text \<open>
  \<^verbatim>\<open>age = now - cachedDate\<close>; \<^verbatim>\<open>None\<close> is \<^verbatim>\<open>NaN\<close>, and \<^verbatim>\<open>NaN > m\<close> is false.
\<close>

definition age_of :: "platform \<Rightarrow> response \<Rightarrow> int option" where
  "age_of pf r =
     (case date r of
        NoDate \<Rightarrow> Some (now pf - now pf)
      | DateMs t \<Rightarrow> Some (now pf - t)
      | BadDate \<Rightarrow> None)"

definition exceeds :: "int option \<Rightarrow> int \<Rightarrow> bool" where
  "exceeds age m = (case age of None \<Rightarrow> False | Some a \<Rightarrow> a > m)"

definition isCacheExpired :: "platform \<Rightarrow> response \<Rightarrow> error + bool" where
  "isCacheExpired pf r =
     (let age = age_of pf r in
      if includes_str (r_url r) ''/api/'' then Inr (exceeds age CACHE_MAX_AGE_api)
      else (case isStaticAsset pf (r_url r) of
              Inl e \<Rightarrow> Inl e
            | Inr b \<Rightarrow>
                if b then Inr (exceeds age CACHE_MAX_AGE_static)
                else Inr (exceeds age CACHE_MAX_AGE_dynamic)))"

section \<open>Caching strategies\<close>

text \<open>
  Each strategy returns the promise the \<^verbatim>\<open>async\<close> function returns and the
  state once its cache writes have landed. A \<^verbatim>\<open>try\<close> body is a function of
  its own whose rejection is what the \<^verbatim>\<open>catch\<close> block receives; a body that
  awaits a fetch that never settles never reaches the \<^verbatim>\<open>catch\<close>.
\<close>

definition cacheFirst_network ::
  "platform \<Rightarrow> network \<Rightarrow> sw_state \<Rightarrow> request \<Rightarrow> response option promise \<times> sw_state" where
  "cacheFirst_network pf net st rq =
     (case do_fetch net st rq of
        (Pending, st') \<Rightarrow> (Pending, st')
      | (Rejected e, st') \<Rightarrow> (Rejected e, st')
      | (Fulfilled networkResponse, st') \<Rightarrow>
          if status networkResponse = 200 then
            (case getCacheName pf rq of
               Inl e \<Rightarrow> (Rejected e, st')
             | Inr name \<Rightarrow>
                 (Fulfilled (Some networkResponse),
                  st'\<lparr>caches := caches_put (caches st') name (url rq) networkResponse\<rparr>))
          else (Fulfilled (Some networkResponse), st'))"

definition cacheFirst_try ::
  "platform \<Rightarrow> network \<Rightarrow> sw_state \<Rightarrow> request \<Rightarrow> response option promise \<times> sw_state" where
  "cacheFirst_try pf net st rq =
     (case caches_match (caches st) (url rq) of
        None \<Rightarrow> cacheFirst_network pf net st rq
      | Some cachedResponse \<Rightarrow>
          (case isCacheExpired pf cachedResponse of
             Inl e \<Rightarrow> (Rejected e, st)
           | Inr expired \<Rightarrow>
               if \<not> expired then (Fulfilled (Some cachedResponse), st)
               else cacheFirst_network pf net st rq))"

definition cacheFirst_catch ::
  "platform \<Rightarrow> error \<Rightarrow> sw_state \<Rightarrow> request \<Rightarrow> response option promise \<times> sw_state" where
  "cacheFirst_catch pf err st rq =
     (case caches_match (caches st) (url rq) of
        Some cachedResponse \<Rightarrow> (Fulfilled (Some cachedResponse), st)
      | None \<Rightarrow>
          if mode rq = ''navigate'' then
            (async_return
               (js_or (JPromise (Fulfilled (caches_match (caches st) (resolve_url pf ''/offline.html''))))
                      (JResponse offline_response)), st)
          else (Rejected err, st))"

definition cacheFirstStrategy ::
  "platform \<Rightarrow> network \<Rightarrow> sw_state \<Rightarrow> request \<Rightarrow> response option promise \<times> sw_state" where
  "cacheFirstStrategy pf net st rq =
     (case cacheFirst_try pf net st rq of
        (Rejected err, st') \<Rightarrow> cacheFirst_catch pf err st' rq
      | (Fulfilled v, st') \<Rightarrow> (Fulfilled v, st')
      | (Pending, st') \<Rightarrow> (Pending, st'))"

definition networkFirst_try ::
  "network \<Rightarrow> sw_state \<Rightarrow> request \<Rightarrow> response option promise \<times> sw_state" where
  "networkFirst_try net st rq =
     (case do_fetch net st rq of
        (Pending, st') \<Rightarrow> (Pending, st')
      | (Rejected e, st') \<Rightarrow> (Rejected e, st')
      | (Fulfilled networkResponse, st') \<Rightarrow>
          if status networkResponse = 200 then
            (Fulfilled (Some networkResponse),
             st'\<lparr>caches := caches_put (caches st') DYNAMIC_CACHE_NAME (url rq) networkResponse\<rparr>)
          else (Fulfilled (Some networkResponse), st'))"

definition networkFirstStrategy ::
  "network \<Rightarrow> sw_state \<Rightarrow> request \<Rightarrow> response option promise \<times> sw_state" where
  "networkFirstStrategy net st rq =
     (case networkFirst_try net st rq of
        (Rejected err, st') \<Rightarrow>
          (case caches_match (caches st') (url rq) of
             Some cachedResponse \<Rightarrow> (Fulfilled (Some cachedResponse), st')
           | None \<Rightarrow> (Rejected err, st'))
      | (Fulfilled v, st') \<Rightarrow> (Fulfilled v, st')
      | (Pending, st') \<Rightarrow> (Pending, st'))"

text \<open>
  \<^verbatim>\<open>fetchPromise\<close> of the third strategy: the fetch with its \<^verbatim>\<open>then\<close> handler
  (store a 200, pass the response on) and its \<^verbatim>\<open>catch\<close> handler, which logs
  and returns nothing, so that a rejected fetch fulfils the promise with
  \<^verbatim>\<open>undefined\<close>. The state returned is the one after the refresh has landed.
\<close>

definition swr_fetchPromise ::
  "network \<Rightarrow> sw_state \<Rightarrow> request \<Rightarrow> response option promise \<times> sw_state" where
  "swr_fetchPromise net st rq =
     (case do_fetch net st rq of
        (Pending, st') \<Rightarrow> (Pending, st')
      | (Rejected e, st') \<Rightarrow> (Fulfilled None, st')
      | (Fulfilled networkResponse, st') \<Rightarrow>
          if status networkResponse = 200 then
            (Fulfilled (Some networkResponse),
             st'\<lparr>caches := caches_put (caches st') DYNAMIC_CACHE_NAME (url rq) networkResponse\<rparr>)
          else (Fulfilled (Some networkResponse), st'))"

definition staleWhileRevalidateStrategy ::
  "platform \<Rightarrow> network \<Rightarrow> sw_state \<Rightarrow> request \<Rightarrow> response option promise \<times> sw_state" where
  "staleWhileRevalidateStrategy pf net st rq =
     (let st1 = st\<lparr>caches := caches_open (caches st) DYNAMIC_CACHE_NAME\<rparr>;
          cachedResponse = cache_match (partition_of (caches st1) DYNAMIC_CACHE_NAME) (url rq);
          (fetchPromise, st2) = swr_fetchPromise net st1 rq;
          waited = async_return
                     (js_or (JPromise fetchPromise)
                        (js_or (of_option cachedResponse) (JResponse offline_response)))
      in case cachedResponse of
           None \<Rightarrow> (waited, st2)
         | Some c \<Rightarrow>
             (case isCacheExpired pf c of
                Inl e \<Rightarrow> (Rejected e, st2)
              | Inr expired \<Rightarrow>
                  if \<not> expired then (Fulfilled (Some c), st2) else (waited, st2)))"

section \<open>Activation: the sweep of old caches\<close>

definition is_old_cache :: "string \<Rightarrow> bool" where
  "is_old_cache cacheName =
     (cacheName \<noteq> STATIC_CACHE_NAME \<and> cacheName \<noteq> DYNAMIC_CACHE_NAME \<and>
      startsWith cacheName ''geniusglider-'')"

definition activate :: "cache_storage \<Rightarrow> cache_storage" where
  "activate cs =
     fold (\<lambda>cacheName acc. if is_old_cache cacheName then caches_delete acc cacheName else acc)
       (caches_keys cs) cs"

section \<open>Background sync: replay of the stored form submissions\<close>

text \<open>
  The object store \<^verbatim>\<open>offlineForms\<close> is keyed by the auto-incremented \<^verbatim>\<open>id\<close>;
  it is the list of its records in ascending key order, which is the order
  of insertion and the order \<^verbatim>\<open>getAll\<close> returns. One run of the handler meets
  one behaviour of IndexedDB and of the network: whether the database opens,
  whether the records can be read, whether the deletion of a key succeeds,
  and what the POST of a record's data settles to.
\<close>

record offline_form =
  form_id :: nat
  form_data :: string

record sync_env =
  open_error :: "error option"
  getAll_error :: "error option"
  delete_error :: "nat \<Rightarrow> error option"
  replay :: "offline_form \<Rightarrow> response promise"

datatype log_entry = LogError string error | LogInfo string

record sync_state =
  forms_store :: "offline_form list"
  posted :: "nat list"
  console :: "log_entry list"

definition ok :: "response \<Rightarrow> bool" where
  "ok r = (200 \<le> status r \<and> status r \<le> 299)"

definition openDB :: "sync_env \<Rightarrow> error + unit" where
  "openDB env = (case open_error env of Some e \<Rightarrow> Inl e | None \<Rightarrow> Inr ())"

definition getOfflineForms :: "sync_env \<Rightarrow> sync_state \<Rightarrow> error + offline_form list" where
  "getOfflineForms env s = (case getAll_error env of Some e \<Rightarrow> Inl e | None \<Rightarrow> Inr (forms_store s))"

definition deleteOfflineForm :: "sync_env \<Rightarrow> sync_state \<Rightarrow> nat \<Rightarrow> error + sync_state" where
  "deleteOfflineForm env s i =
     (case delete_error env i of
        Some e \<Rightarrow> Inl e
      | None \<Rightarrow> Inr (s\<lparr>forms_store := filter (\<lambda>f. form_id f \<noteq> i) (forms_store s)\<rparr>))"

definition console_write :: "log_entry \<Rightarrow> sync_state \<Rightarrow> sync_state" where
  "console_write e s = s\<lparr>console := console s @ [e]\<rparr>"

text \<open>
  The body of the \<^verbatim>\<open>for\<close> loop, with its inner \<^verbatim>\<open>try\<close>/\<^verbatim>\<open>catch\<close>: the
  POST of one record, the deletion of the record when the response is \<^verbatim>\<open>ok\<close>,
  and the \<^verbatim>\<open>catch\<close> that logs a rejected POST or a failed deletion. The flag
  returned is whether the body came to its end; it does not when the POST
  never settles, and then the loop does not go on.
\<close>

definition replay_one :: "sync_env \<Rightarrow> offline_form \<Rightarrow> sync_state \<Rightarrow> bool \<times> sync_state" where
  "replay_one env form s =
     (let s1 = s\<lparr>posted := posted s @ [form_id form]\<rparr> in
      case replay env form of
        Pending \<Rightarrow> (False, s1)
      | Rejected e \<Rightarrow> (True, console_write (LogError ''Failed to submit offline form:'' e) s1)
      | Fulfilled resp \<Rightarrow>
          if ok resp then
            (case deleteOfflineForm env s1 (form_id form) of
               Inl e \<Rightarrow> (True, console_write (LogError ''Failed to submit offline form:'' e) s1)
             | Inr s2 \<Rightarrow> (True, console_write (LogInfo ''Offline form submitted successfully'') s2))
          else (True, s1))"

fun replay_loop :: "sync_env \<Rightarrow> offline_form list \<Rightarrow> sync_state \<Rightarrow> bool \<times> sync_state" where
  "replay_loop env [] s = (True, s)"
| "replay_loop env (form # rest) s =
     (case replay_one env form s of
        (True, s') \<Rightarrow> replay_loop env rest s'
      | (False, s') \<Rightarrow> (False, s'))"

definition handleOfflineFormSubmission :: "sync_env \<Rightarrow> sync_state \<Rightarrow> unit promise \<times> sync_state" where
  "handleOfflineFormSubmission env s =
     (case openDB env of
        Inl e \<Rightarrow> (Fulfilled (), console_write (LogError ''Error handling offline forms:'' e) s)
      | Inr db \<Rightarrow>
          (case getOfflineForms env s of
             Inl e \<Rightarrow> (Fulfilled (), console_write (LogError ''Error handling offline forms:'' e) s)
           | Inr offlineForms \<Rightarrow>
               (case replay_loop env offlineForms s of
                  (True, s') \<Rightarrow> (Fulfilled (), s')
                | (False, s') \<Rightarrow> (Pending, s'))))"

text \<open>
  A replay succeeded when its POST was fulfilled with a response whose
  \<^verbatim>\<open>ok\<close> flag is set, the test the loop makes after its \<^verbatim>\<open>await\<close>.
\<close>

definition replay_ok :: "sync_env \<Rightarrow> offline_form \<Rightarrow> bool" where
  "replay_ok env f = (case replay env f of Fulfilled resp \<Rightarrow> ok resp | Rejected e \<Rightarrow> False | Pending \<Rightarrow> False)"

section \<open>Concrete inputs\<close>

definition ex_platform :: platform where
  "ex_platform =
     \<lparr>pathname_of = map_of
        [(''https://geniusglider.com/index.html'', ''/index.html''),
         (''https://geniusglider.com/assets/js/app.js'', ''/assets/js/app.js''),
         (''https://geniusglider.com/about'', ''/about''),
         (''https://geniusglider.com/api/status'', ''/api/status'')],
      resolve_url = (\<lambda>p. ''https://geniusglider.com'' @ p),
      now = 2592000000\<rparr>"

definition index_request :: request where
  "index_request = \<lparr>url = ''https://geniusglider.com/index.html'', mode = ''navigate''\<rparr>"

definition app_js_request :: request where
  "app_js_request = \<lparr>url = ''https://geniusglider.com/assets/js/app.js'', mode = ''no-cors''\<rparr>"

definition about_request :: request where
  "about_request = \<lparr>url = ''https://geniusglider.com/about'', mode = ''navigate''\<rparr>"

definition api_request :: request where
  "api_request = \<lparr>url = ''https://geniusglider.com/api/status'', mode = ''cors''\<rparr>"

text \<open>Stored responses, by their age at the clock of \<open>ex_platform\<close>.\<close>

definition app_js_30d :: response where
  "app_js_30d = \<lparr>r_url = ''https://geniusglider.com/assets/js/app.js'', status = 200,
                  date = DateMs 0, body = ''console.log(1)''\<rparr>"

definition app_js_30d_1ms :: response where
  "app_js_30d_1ms = app_js_30d\<lparr>date := DateMs (- 1)\<rparr>"

definition app_js_no_date :: response where
  "app_js_no_date = app_js_30d\<lparr>date := NoDate\<rparr>"

definition app_js_bad_date :: response where
  "app_js_bad_date = app_js_30d\<lparr>date := BadDate\<rparr>"

definition app_js_1s :: response where
  "app_js_1s = app_js_30d\<lparr>date := DateMs 2591999000\<rparr>"

definition about_1s :: response where
  "about_1s = \<lparr>r_url = ''https://geniusglider.com/about'', status = 200,
                date = DateMs 2591999000, body = ''<h1>About</h1>''\<rparr>"

definition about_30d :: response where
  "about_30d = about_1s\<lparr>date := DateMs 0\<rparr>"

definition api_30d :: response where
  "api_30d = \<lparr>r_url = ''https://geniusglider.com/api/status'', status = 200,
               date = DateMs 0, body = ''{up:true}''\<rparr>"

definition api_500 :: response where
  "api_500 = \<lparr>r_url = ''https://geniusglider.com/api/status'', status = 500,
               date = DateMs 2592000000, body = ''Internal Server Error''\<rparr>"

definition net_down :: network where
  "net_down = (\<lambda>rq. Rejected FetchError)"

definition net_hangs :: network where
  "net_hangs = (\<lambda>rq. Pending)"

definition net_500 :: network where
  "net_500 = (\<lambda>rq. Fulfilled api_500)"

definition empty_state :: sw_state where
  "empty_state = \<lparr>caches = [], fetched = []\<rparr>"

definition state_app_js :: sw_state where
  "state_app_js =
     \<lparr>caches = [(STATIC_CACHE_NAME, [(''https://geniusglider.com/assets/js/app.js'', app_js_1s)])],
      fetched = []\<rparr>"

definition state_about_fresh :: sw_state where
  "state_about_fresh =
     \<lparr>caches = [(DYNAMIC_CACHE_NAME, [(''https://geniusglider.com/about'', about_1s)])],
      fetched = []\<rparr>"

definition state_about_expired :: sw_state where
  "state_about_expired =
     \<lparr>caches = [(DYNAMIC_CACHE_NAME, [(''https://geniusglider.com/about'', about_30d)])],
      fetched = []\<rparr>"

definition state_api :: sw_state where
  "state_api =
     \<lparr>caches = [(DYNAMIC_CACHE_NAME, [(''https://geniusglider.com/api/status'', api_30d)])],
      fetched = []\<rparr>"

definition old_and_new_caches :: cache_storage where
  "old_and_new_caches =
     [(''geniusglider-static-v0.9.0'', []), (''geniusglider-dynamic-v0.9.0'', []),
      (''geniusglider-static-v1.0.0'', []), (''geniusglider-dynamic-v1.0.0'', []),
      (''other-app-v1'', [])]"

definition form_A :: offline_form where
  "form_A = \<lparr>form_id = 1, form_data = ''A''\<rparr>"

definition form_B :: offline_form where
  "form_B = \<lparr>form_id = 2, form_data = ''B''\<rparr>"

definition form_C :: offline_form where
  "form_C = \<lparr>form_id = 3, form_data = ''C''\<rparr>"

definition queue_ABC :: sync_state where
  "queue_ABC = \<lparr>forms_store = [form_A, form_B, form_C], posted = [], console = []\<rparr>"

definition created :: response where
  "created = \<lparr>r_url = ''https://geniusglider.com/api/consultation'', status = 201,
               date = NoDate, body = []\<rparr>"

text \<open>The store works; the POST of B is rejected, the others are accepted.\<close>

definition env_B_fails :: sync_env where
  "env_B_fails =
     \<lparr>open_error = None, getAll_error = None, delete_error = (\<lambda>i. None),
      replay = (\<lambda>f. if form_id f = 2 then Rejected FetchError else Fulfilled created)\<rparr>"

text \<open>Every POST is accepted; the deletion of key 2 fails.\<close>

definition env_delete_B_fails :: sync_env where
  "env_delete_B_fails =
     \<lparr>open_error = None, getAll_error = None,
      delete_error = (\<lambda>i. if i = 2 then Some DBError else None),
      replay = (\<lambda>f. Fulfilled created)\<rparr>"

definition env_all_fine :: sync_env where
  "env_all_fine =
     \<lparr>open_error = None, getAll_error = None, delete_error = (\<lambda>i. None),
      replay = (\<lambda>f. Fulfilled created)\<rparr>"

definition env_db_closed :: sync_env where
  "env_db_closed = env_all_fine\<lparr>open_error := Some DBError\<rparr>"

definition env_unreadable :: sync_env where
  "env_unreadable = env_all_fine\<lparr>getAll_error := Some DBError\<rparr>"

section \<open>Properties of the expiry test\<close>

lemma isCacheExpired_by_class:
  "isCacheExpired pf r =
     (if includes_str (r_url r) ''/api/'' then Inr (exceeds (age_of pf r) 3600000)
      else case isStaticAsset pf (r_url r) of
             Inl e \<Rightarrow> Inl e
           | Inr b \<Rightarrow> Inr (exceeds (age_of pf r) (if b then 2592000000 else 604800000)))"
  by (simp add: isCacheExpired_def CACHE_MAX_AGE_api_def CACHE_MAX_AGE_static_def
      CACHE_MAX_AGE_dynamic_def split: sum.split)

lemma exceeds_age_of:
  "0 \<le> m \<Longrightarrow>
   exceeds (age_of pf r) m =
     (case date r of DateMs t \<Rightarrow> now pf - t > m | NoDate \<Rightarrow> False | BadDate \<Rightarrow> False)"
  by (simp add: exceeds_def age_of_def split: date_header.split)

lemma ex_isStatic_app_js:
  "isStaticAsset ex_platform ''https://geniusglider.com/assets/js/app.js'' = Inr True"
  by (simp add: isStaticAsset_def ex_platform_def STATIC_FILES_def)

lemma ex_isStatic_about:
  "isStaticAsset ex_platform ''https://geniusglider.com/about'' = Inr False"
  by (simp add: isStaticAsset_def ex_platform_def STATIC_FILES_def)

lemma ex_app_js_1s_fresh: "isCacheExpired ex_platform app_js_1s = Inr False"
  by (simp add: isCacheExpired_def age_of_def exceeds_def app_js_1s_def app_js_30d_def
      ex_isStatic_app_js CACHE_MAX_AGE_static_def) (simp add: ex_platform_def)

lemma ex_about_1s_fresh: "isCacheExpired ex_platform about_1s = Inr False"
  by (simp add: isCacheExpired_def age_of_def exceeds_def about_1s_def
      ex_isStatic_about CACHE_MAX_AGE_dynamic_def) (simp add: ex_platform_def)

lemma ex_about_30d_expired: "isCacheExpired ex_platform about_30d = Inr True"
  by (simp add: isCacheExpired_def age_of_def exceeds_def about_30d_def about_1s_def
      ex_isStatic_about CACHE_MAX_AGE_dynamic_def) (simp add: ex_platform_def)

text \<open>
  C3, as stated, at its boundary: a response of the static class whose
  \<^verbatim>\<open>date\<close> is exactly 30 days (2592000000 ms) before the clock is not
  expired, since the test is \<^verbatim>\<open>age > CACHE_MAX_AGE.static\<close>.
\<close>

theorem static_entry_exactly_30_days_old_not_expired:
  "date app_js_30d = DateMs 0 \<and> now ex_platform - 0 = 30 * 24 * 60 * 60 * 1000 \<and>
   \<not> includes_str (r_url app_js_30d) ''/api/'' \<and>
   isStaticAsset ex_platform (r_url app_js_30d) = Inr True \<and>
   isCacheExpired ex_platform app_js_30d = Inr False"
  by (simp add: isCacheExpired_def age_of_def exceeds_def app_js_30d_def ex_isStatic_app_js
      CACHE_MAX_AGE_static_def) (simp add: ex_platform_def)

text \<open>
  C3, amended: for every stored response, \<^verbatim>\<open>isCacheExpired\<close> is true exactly
  when the age, now minus the \<^verbatim>\<open>date\<close> of the response, is strictly greater
  than the maximum age of the response's class: one hour when the URL
  contains \<^verbatim>\<open>/api/\<close>, else 30 days when it is a static asset, else 7 days. An
  entry whose age equals the maximum is therefore not expired. A response
  with no \<^verbatim>\<open>date\<close> counts as captured now and is not expired; one whose
  \<^verbatim>\<open>date\<close> cannot be read has no age and is not expired either.
\<close>

theorem isCacheExpired_iff_age_strictly_greater:
  "(includes_str (r_url r) ''/api/'' \<longrightarrow>
      isCacheExpired pf r =
        Inr (case date r of DateMs t \<Rightarrow> now pf - t > 3600000
             | NoDate \<Rightarrow> False | BadDate \<Rightarrow> False)) \<and>
   (\<not> includes_str (r_url r) ''/api/'' \<and> isStaticAsset pf (r_url r) = Inr True \<longrightarrow>
      isCacheExpired pf r =
        Inr (case date r of DateMs t \<Rightarrow> now pf - t > 2592000000
             | NoDate \<Rightarrow> False | BadDate \<Rightarrow> False)) \<and>
   (\<not> includes_str (r_url r) ''/api/'' \<and> isStaticAsset pf (r_url r) = Inr False \<longrightarrow>
      isCacheExpired pf r =
        Inr (case date r of DateMs t \<Rightarrow> now pf - t > 604800000
             | NoDate \<Rightarrow> False | BadDate \<Rightarrow> False))"
proof (intro conjI impI)
  assume "includes_str (r_url r) ''/api/''"
  then have "isCacheExpired pf r = Inr (exceeds (age_of pf r) 3600000)"
    by (simp add: isCacheExpired_by_class)
  then show "isCacheExpired pf r =
        Inr (case date r of DateMs t \<Rightarrow> now pf - t > 3600000
             | NoDate \<Rightarrow> False | BadDate \<Rightarrow> False)"
    by (simp add: exceeds_age_of)
next
  assume "\<not> includes_str (r_url r) ''/api/'' \<and> isStaticAsset pf (r_url r) = Inr True"
  then have "isCacheExpired pf r = Inr (exceeds (age_of pf r) 2592000000)"
    by (simp add: isCacheExpired_by_class)
  then show "isCacheExpired pf r =
        Inr (case date r of DateMs t \<Rightarrow> now pf - t > 2592000000
             | NoDate \<Rightarrow> False | BadDate \<Rightarrow> False)"
    by (simp add: exceeds_age_of)
next
  assume "\<not> includes_str (r_url r) ''/api/'' \<and> isStaticAsset pf (r_url r) = Inr False"
  then have "isCacheExpired pf r = Inr (exceeds (age_of pf r) 604800000)"
    by (simp add: isCacheExpired_by_class)
  then show "isCacheExpired pf r =
        Inr (case date r of DateMs t \<Rightarrow> now pf - t > 604800000
             | NoDate \<Rightarrow> False | BadDate \<Rightarrow> False)"
    by (simp add: exceeds_age_of)
qed

text \<open>
  The static asset at four dates: one millisecond past 30 days it is
  expired; at exactly 30 days, with no date and with an unreadable date it
  is not.
\<close>

theorem isCacheExpired_iff_age_strictly_greater_witness:
  "\<not> includes_str (r_url app_js_30d_1ms) ''/api/'' \<and>
   isStaticAsset ex_platform (r_url app_js_30d_1ms) = Inr True \<and>
   date app_js_30d_1ms = DateMs (- 1) \<and> now ex_platform - (- 1) = 2592000001 \<and>
   isCacheExpired ex_platform app_js_30d_1ms = Inr True \<and>
   date app_js_30d = DateMs 0 \<and> now ex_platform - 0 = 2592000000 \<and>
   isCacheExpired ex_platform app_js_30d = Inr False \<and>
   date app_js_no_date = NoDate \<and> isCacheExpired ex_platform app_js_no_date = Inr False \<and>
   date app_js_bad_date = BadDate \<and> isCacheExpired ex_platform app_js_bad_date = Inr False"
proof -
  have u: "r_url app_js_30d_1ms = ''https://geniusglider.com/assets/js/app.js''"
    "r_url app_js_30d = ''https://geniusglider.com/assets/js/app.js''"
    "r_url app_js_no_date = ''https://geniusglider.com/assets/js/app.js''"
    "r_url app_js_bad_date = ''https://geniusglider.com/assets/js/app.js''"
    by (simp_all add: app_js_30d_1ms_def app_js_no_date_def app_js_bad_date_def app_js_30d_def)
  have d: "date app_js_30d_1ms = DateMs (- 1)" "date app_js_30d = DateMs 0"
    "date app_js_no_date = NoDate" "date app_js_bad_date = BadDate"
    by (simp_all add: app_js_30d_1ms_def app_js_no_date_def app_js_bad_date_def app_js_30d_def)
  have n: "now ex_platform = 2592000000"
    by (simp add: ex_platform_def)
  show ?thesis
    using isCacheExpired_iff_age_strictly_greater [of app_js_30d_1ms ex_platform]
      isCacheExpired_iff_age_strictly_greater [of app_js_30d ex_platform]
      isCacheExpired_iff_age_strictly_greater [of app_js_no_date ex_platform]
      isCacheExpired_iff_age_strictly_greater [of app_js_bad_date ex_platform]
      ex_isStatic_app_js
    by (simp add: u d n)
qed

section \<open>Properties of the caching strategies\<close>

subsection \<open>Cache first\<close>

text \<open>
  C5: when \<^verbatim>\<open>caches.match\<close> finds an entry for the request and the entry is
  not expired, \<^verbatim>\<open>cacheFirstStrategy\<close> is fulfilled with that entry and leaves
  the state as it was, the log of network calls included, whatever the
  network would have answered.
\<close>

theorem cacheFirst_fresh_hit_skips_network:
  assumes "caches_match (caches st) (url rq) = Some c"
    and "isCacheExpired pf c = Inr False"
  shows "cacheFirstStrategy pf net st rq = (Fulfilled (Some c), st) \<and>
         fetched (snd (cacheFirstStrategy pf net st rq)) = fetched st"
  using assms by (simp add: cacheFirstStrategy_def cacheFirst_try_def)

text \<open>A fresh script in the static cache, and a network that never answers.\<close>

theorem cacheFirst_fresh_hit_skips_network_witness:
  "caches_match (caches state_app_js) (url app_js_request) = Some app_js_1s \<and>
   isCacheExpired ex_platform app_js_1s = Inr False \<and>
   cacheFirstStrategy ex_platform net_hangs state_app_js app_js_request =
     (Fulfilled (Some app_js_1s), state_app_js) \<and>
   fetched (snd (cacheFirstStrategy ex_platform net_hangs state_app_js app_js_request)) = []"
proof -
  have c: "caches_match (caches state_app_js) (url app_js_request) = Some app_js_1s"
    by (simp add: state_app_js_def app_js_request_def cache_match_def)
  have f: "fetched state_app_js = []"
    by (simp add: state_app_js_def)
  show ?thesis
    using cacheFirst_fresh_hit_skips_network [OF c ex_app_js_1s_fresh, of net_hangs]
    by (simp add: c f ex_app_js_1s_fresh)
qed

text \<open>
  C2 at the input where the code departs from it: a navigation to
  \<^verbatim>\<open>/index.html\<close> with nothing cached, no \<^verbatim>\<open>/offline.html\<close> cached either,
  and a rejected fetch. The promise \<^verbatim>\<open>caches.match('/offline.html')\<close> is
  truthy, so \<^verbatim>\<open>|| new Response('Offline')\<close> is never taken and the strategy
  is fulfilled with \<^verbatim>\<open>undefined\<close>.
\<close>

theorem cacheFirst_offline_navigation_yields_undefined:
  "net_down index_request = Rejected FetchError \<and>
   mode index_request = ''navigate'' \<and>
   caches_match (caches empty_state) (url index_request) = None \<and>
   fst (cacheFirstStrategy ex_platform net_down empty_state index_request) = Fulfilled None \<and>
   fst (cacheFirstStrategy ex_platform net_down empty_state index_request)
     \<noteq> Fulfilled (Some offline_response)"
  by (simp add: cacheFirstStrategy_def cacheFirst_try_def cacheFirst_network_def cacheFirst_catch_def
      do_fetch_def net_down_def empty_state_def index_request_def js_or_def)

subsection \<open>Network first\<close>

text \<open>
  C4, as stated, fails for a fetch that resolves with a non-success status:
  the dynamic cache holds an entry for the request, the server answers 500,
  and the strategy returns the 500 response, not the cached entry.
\<close>

theorem networkFirst_returns_error_status_response:
  "net_500 api_request = Fulfilled api_500 \<and> status api_500 = 500 \<and>
   caches_match (caches state_api) (url api_request) = Some api_30d \<and>
   fst (networkFirstStrategy net_500 state_api api_request) = Fulfilled (Some api_500) \<and>
   fst (networkFirstStrategy net_500 state_api api_request) \<noteq> Fulfilled (Some api_30d)"
  by (simp add: networkFirstStrategy_def networkFirst_try_def do_fetch_def net_500_def
      state_api_def api_request_def api_500_def api_30d_def cache_match_def)

text \<open>
  C4, amended: when the fetch is rejected, \<^verbatim>\<open>networkFirstStrategy\<close> returns the
  cached entry if \<^verbatim>\<open>caches.match\<close> finds one, whatever its age, and is
  rejected with the same error only when there is none; the caches are left
  as they were. A fetch that resolves, with any status, is not a failure:
  its response is returned, and it is stored, in the dynamic cache, only
  when its status is 200; with any other status the caches are left as they
  were.
\<close>

theorem networkFirst_falls_back_on_rejection:
  "(net rq = Rejected e \<longrightarrow>
      fst (networkFirstStrategy net st rq) =
        (case caches_match (caches st) (url rq) of
           Some c \<Rightarrow> Fulfilled (Some c)
         | None \<Rightarrow> Rejected e) \<and>
      caches (snd (networkFirstStrategy net st rq)) = caches st) \<and>
   (net rq = Fulfilled r \<longrightarrow>
      fst (networkFirstStrategy net st rq) = Fulfilled (Some r) \<and>
      caches (snd (networkFirstStrategy net st rq)) =
        (if status r = 200 then caches_put (caches st) DYNAMIC_CACHE_NAME (url rq) r
         else caches st))"
proof (intro conjI impI)
  assume rejected: "net rq = Rejected e"
  then have body: "networkFirst_try net st rq = (Rejected e, st\<lparr>fetched := fetched st @ [rq]\<rparr>)"
    by (simp add: networkFirst_try_def do_fetch_def)
  then show "fst (networkFirstStrategy net st rq) =
        (case caches_match (caches st) (url rq) of
           Some c \<Rightarrow> Fulfilled (Some c)
         | None \<Rightarrow> Rejected e)"
    by (simp add: networkFirstStrategy_def split: option.split)
  from body show "caches (snd (networkFirstStrategy net st rq)) = caches st"
    by (simp add: networkFirstStrategy_def split: option.split)
next
  assume resolved: "net rq = Fulfilled r"
  then have body: "networkFirst_try net st rq =
      (Fulfilled (Some r),
       if status r = 200
       then st\<lparr>fetched := fetched st @ [rq],
               caches := caches_put (caches st) DYNAMIC_CACHE_NAME (url rq) r\<rparr>
       else st\<lparr>fetched := fetched st @ [rq]\<rparr>)"
    by (simp add: networkFirst_try_def do_fetch_def)
  then show "fst (networkFirstStrategy net st rq) = Fulfilled (Some r)"
    by (simp add: networkFirstStrategy_def)
  from body show "caches (snd (networkFirstStrategy net st rq)) =
        (if status r = 200 then caches_put (caches st) DYNAMIC_CACHE_NAME (url rq) r
         else caches st)"
    by (simp add: networkFirstStrategy_def)
qed

text \<open>
  The network is down: a 30 days old API entry is served; with no entry the
  rejection reaches the caller. The server answers 500: the 500 is returned
  and the cached entry stays in place.
\<close>

theorem networkFirst_falls_back_on_rejection_witness:
  "net_down api_request = Rejected FetchError \<and>
   fst (networkFirstStrategy net_down state_api api_request) = Fulfilled (Some api_30d) \<and>
   fst (networkFirstStrategy net_down empty_state api_request) = Rejected FetchError \<and>
   net_500 api_request = Fulfilled api_500 \<and> status api_500 = 500 \<and>
   fst (networkFirstStrategy net_500 state_api api_request) = Fulfilled (Some api_500) \<and>
   caches (snd (networkFirstStrategy net_500 state_api api_request)) = caches state_api \<and>
   caches_match (caches (snd (networkFirstStrategy net_500 state_api api_request))) (url api_request)
     = Some api_30d"
proof -
  have d: "net_down api_request = Rejected FetchError"
    by (simp add: net_down_def)
  have s: "net_500 api_request = Fulfilled api_500" and t: "status api_500 = 500"
    by (simp_all add: net_500_def api_500_def)
  have c: "caches_match (caches state_api) (url api_request) = Some api_30d"
    by (simp add: state_api_def api_request_def cache_match_def)
  have n: "caches_match (caches empty_state) (url api_request) = None"
    by (simp add: empty_state_def)
  show ?thesis
    using networkFirst_falls_back_on_rejection [of net_down api_request FetchError state_api api_500]
      networkFirst_falls_back_on_rejection [of net_down api_request FetchError empty_state api_500]
      networkFirst_falls_back_on_rejection [of net_500 api_request FetchError state_api api_500]
    by (simp add: d s t c n)
qed

subsection \<open>Stale while revalidate\<close>

lemma partition_of_caches_open:
  "partition_of (caches_open cs name) name = partition_of cs name"
proof (cases "name \<in> set (caches_keys cs)")
  case True
  then show ?thesis by (simp add: caches_open_def)
next
  case False
  then have "map_of cs name = None"
    by (simp add: caches_keys_def map_of_eq_None_iff)
  with False show ?thesis
    by (simp add: caches_open_def partition_of_def map_add_def)
qed

lemma swr_fetchPromise_fetched:
  "fetched (snd (swr_fetchPromise net st rq)) = fetched st @ [rq]"
  by (cases "net rq") (simp_all add: swr_fetchPromise_def do_fetch_def)

text \<open>
  C6: when the dynamic cache holds an entry for the request and the entry is
  not expired, \<^verbatim>\<open>staleWhileRevalidateStrategy\<close> is fulfilled with exactly that
  entry, for every behaviour of the network; in particular when the fetch
  it has started (the call is in the log) never settles, so the answer does
  not wait for it.
\<close>

theorem swr_fresh_hit_does_not_wait:
  assumes "cache_match (partition_of (caches st) DYNAMIC_CACHE_NAME) (url rq) = Some c"
    and "isCacheExpired pf c = Inr False"
  shows "fst (staleWhileRevalidateStrategy pf net st rq) = Fulfilled (Some c) \<and>
         fetched (snd (staleWhileRevalidateStrategy pf net st rq)) = fetched st @ [rq] \<and>
         fst (staleWhileRevalidateStrategy pf (\<lambda>q. Pending) st rq) = Fulfilled (Some c)"
proof -
  let ?st1 = "st\<lparr>caches := caches_open (caches st) DYNAMIC_CACHE_NAME\<rparr>"
  have hit: "cache_match (partition_of (caches ?st1) DYNAMIC_CACHE_NAME) (url rq) = Some c"
    using assms(1) by (simp add: partition_of_caches_open)
  have shape: "staleWhileRevalidateStrategy pf n st rq =
               (Fulfilled (Some c), snd (swr_fetchPromise n ?st1 rq))" for n
    using hit assms(2)
    by (simp add: staleWhileRevalidateStrategy_def Let_def split: prod.split)
  show ?thesis
    by (simp add: shape swr_fetchPromise_fetched)
qed

text \<open>A fresh page in the dynamic cache, with the network down or silent.\<close>

theorem swr_fresh_hit_does_not_wait_witness:
  "cache_match (partition_of (caches state_about_fresh) DYNAMIC_CACHE_NAME) (url about_request)
     = Some about_1s \<and>
   isCacheExpired ex_platform about_1s = Inr False \<and>
   fst (staleWhileRevalidateStrategy ex_platform net_down state_about_fresh about_request)
     = Fulfilled (Some about_1s) \<and>
   fetched (snd (staleWhileRevalidateStrategy ex_platform net_down state_about_fresh about_request))
     = [about_request] \<and>
   fst (staleWhileRevalidateStrategy ex_platform (\<lambda>q. Pending) state_about_fresh about_request)
     = Fulfilled (Some about_1s)"
proof -
  have f: "fetched state_about_fresh = []"
    by (simp add: state_about_fresh_def)
  have c: "cache_match (partition_of (caches state_about_fresh) DYNAMIC_CACHE_NAME) (url about_request)
             = Some about_1s"
    by (simp add: state_about_fresh_def partition_of_def cache_match_def about_request_def)
  show ?thesis
    using swr_fresh_hit_does_not_wait [OF c ex_about_1s_fresh, of net_down]
    by (simp add: c f ex_about_1s_fresh)
qed

text \<open>
  C1 at the inputs where the code departs from it: the fetch is rejected and
  the dynamic cache holds no entry for the page, or only an expired one. The
  \<^verbatim>\<open>catch\<close> handler of \<^verbatim>\<open>fetchPromise\<close> returns nothing and the promise object
  is truthy, so neither \<^verbatim>\<open>cachedResponse\<close> nor \<^verbatim>\<open>new Response('Offline')\<close> is
  ever chosen: the strategy is fulfilled with \<^verbatim>\<open>undefined\<close>.
\<close>

theorem swr_offline_without_fresh_entry_yields_undefined:
  "net_down about_request = Rejected FetchError \<and>
   fst (staleWhileRevalidateStrategy ex_platform net_down empty_state about_request)
     = Fulfilled None \<and>
   fst (staleWhileRevalidateStrategy ex_platform net_down empty_state about_request)
     \<noteq> Fulfilled (Some offline_response) \<and>
   fst (staleWhileRevalidateStrategy ex_platform net_down state_about_expired about_request)
     = Fulfilled None"
proof -
  have a: "fst (staleWhileRevalidateStrategy ex_platform net_down empty_state about_request)
             = Fulfilled None"
    by (simp add: staleWhileRevalidateStrategy_def swr_fetchPromise_def do_fetch_def net_down_def
        empty_state_def caches_open_def caches_keys_def partition_of_def cache_match_def js_or_def)
  have b: "fst (staleWhileRevalidateStrategy ex_platform net_down state_about_expired about_request)
             = Fulfilled None"
    by (simp add: staleWhileRevalidateStrategy_def swr_fetchPromise_def do_fetch_def net_down_def
        state_about_expired_def caches_open_def caches_keys_def partition_of_def cache_match_def
        js_or_def about_request_def ex_about_30d_expired)
  from a b show ?thesis by (simp add: net_down_def)
qed

section \<open>Properties of the activation sweep\<close>

lemma sweep_fold:
  "fold (\<lambda>cacheName acc. if is_old_cache cacheName then caches_delete acc cacheName else acc) ks acc =
   filter (\<lambda>e. \<not> (is_old_cache (fst e) \<and> fst e \<in> set ks)) acc"
proof (induction ks arbitrary: acc)
  case Nil
  then show ?case by simp
next
  case (Cons k ks)
  show ?case
  proof (cases "is_old_cache k")
    case True
    have "filter (\<lambda>e. \<not> (is_old_cache (fst e) \<and> fst e \<in> set ks)) (caches_delete acc k) =
          filter (\<lambda>e. \<not> (is_old_cache (fst e) \<and> fst e \<in> set (k # ks))) acc"
      unfolding caches_delete_def filter_filter
      by (rule filter_cong) (auto simp: True)
    with True Cons.IH show ?thesis by simp
  next
    case False
    have "filter (\<lambda>e. \<not> (is_old_cache (fst e) \<and> fst e \<in> set ks)) acc =
          filter (\<lambda>e. \<not> (is_old_cache (fst e) \<and> fst e \<in> set (k # ks))) acc"
      by (rule filter_cong) (auto simp: False)
    with False Cons.IH show ?thesis by simp
  qed
qed

lemma activate_filter: "activate cs = filter (\<lambda>e. \<not> is_old_cache (fst e)) cs"
proof -
  have "activate cs = filter (\<lambda>e. \<not> (is_old_cache (fst e) \<and> fst e \<in> set (caches_keys cs))) cs"
    by (simp add: activate_def sweep_fold)
  also have "\<dots> = filter (\<lambda>e. \<not> is_old_cache (fst e)) cs"
    by (rule filter_cong) (auto simp: caches_keys_def)
  finally show ?thesis .
qed

lemma map_of_filter_fst:
  "map_of (filter (\<lambda>e. P (fst e)) cs) n = (if P n then map_of cs n else None)"
  by (induction cs) auto

text \<open>
  C7: after the sweep, the names of the caches that remain are exactly the
  names that were there and either do not start with \<^verbatim>\<open>geniusglider-\<close> or are
  the current static or dynamic cache name; every other cache is deleted,
  and the caches that remain keep their entries.
\<close>

theorem activate_keeps_current_and_foreign:
  "set (caches_keys (activate cs)) =
     {n \<in> set (caches_keys cs).
        \<not> startsWith n ''geniusglider-'' \<or> n = STATIC_CACHE_NAME \<or> n = DYNAMIC_CACHE_NAME} \<and>
   (\<forall>n \<in> set (caches_keys (activate cs)). partition_of (activate cs) n = partition_of cs n)"
proof
  show "set (caches_keys (activate cs)) =
     {n \<in> set (caches_keys cs).
        \<not> startsWith n ''geniusglider-'' \<or> n = STATIC_CACHE_NAME \<or> n = DYNAMIC_CACHE_NAME}"
    by (auto simp: activate_filter caches_keys_def is_old_cache_def)
next
  show "\<forall>n \<in> set (caches_keys (activate cs)). partition_of (activate cs) n = partition_of cs n"
    by (auto simp: activate_filter caches_keys_def partition_of_def
        map_of_filter_fst [of "\<lambda>n. \<not> is_old_cache n"])
qed

lemma ex_old_1: "is_old_cache ''geniusglider-static-v0.9.0''"
  by (simp add: is_old_cache_def startsWith_def STATIC_CACHE_NAME_def DYNAMIC_CACHE_NAME_def)

lemma ex_old_2: "is_old_cache ''geniusglider-dynamic-v0.9.0''"
  by (simp add: is_old_cache_def startsWith_def STATIC_CACHE_NAME_def DYNAMIC_CACHE_NAME_def)

lemma ex_foreign: "\<not> startsWith ''other-app-v1'' ''geniusglider-''"
  by (simp add: startsWith_def)

text \<open>
  Both caches of version 0.9.0 go; those of version 1.0.0 and the cache of
  another application stay.
\<close>

theorem activate_keeps_current_and_foreign_witness:
  "set (caches_keys (activate old_and_new_caches)) =
     {''geniusglider-static-v1.0.0'', ''geniusglider-dynamic-v1.0.0'', ''other-app-v1''}"
proof -
  have k: "set (caches_keys old_and_new_caches) =
      {''geniusglider-static-v0.9.0'', ''geniusglider-dynamic-v0.9.0'',
       STATIC_CACHE_NAME, DYNAMIC_CACHE_NAME, ''other-app-v1''}"
    by (simp add: old_and_new_caches_def caches_keys_def STATIC_CACHE_NAME_def DYNAMIC_CACHE_NAME_def)
  have o1: "startsWith ''geniusglider-static-v0.9.0'' ''geniusglider-'' \<and>
            ''geniusglider-static-v0.9.0'' \<noteq> STATIC_CACHE_NAME \<and>
            ''geniusglider-static-v0.9.0'' \<noteq> DYNAMIC_CACHE_NAME"
    using ex_old_1 by (simp add: is_old_cache_def)
  have o2: "startsWith ''geniusglider-dynamic-v0.9.0'' ''geniusglider-'' \<and>
            ''geniusglider-dynamic-v0.9.0'' \<noteq> STATIC_CACHE_NAME \<and>
            ''geniusglider-dynamic-v0.9.0'' \<noteq> DYNAMIC_CACHE_NAME"
    using ex_old_2 by (simp add: is_old_cache_def)
  have "set (caches_keys (activate old_and_new_caches)) =
     {n \<in> set (caches_keys old_and_new_caches).
        \<not> startsWith n ''geniusglider-'' \<or> n = STATIC_CACHE_NAME \<or> n = DYNAMIC_CACHE_NAME}"
    using activate_keeps_current_and_foreign [of old_and_new_caches] by (rule conjunct1)
  also have "\<dots> = {STATIC_CACHE_NAME, DYNAMIC_CACHE_NAME, ''other-app-v1''}"
    unfolding k using o1 o2 ex_foreign by blast
  finally show ?thesis
    by (simp add: STATIC_CACHE_NAME_def DYNAMIC_CACHE_NAME_def)
qed

section \<open>Properties of the replay of stored submissions\<close>

lemma replay_one_settles:
  "replay env a \<noteq> Pending \<Longrightarrow> fst (replay_one env a s)"
  by (cases "replay env a")
     (simp_all add: replay_one_def Let_def deleteOfflineForm_def split: option.split)

lemma replay_one_posted:
  "posted (snd (replay_one env a s)) = posted s @ [form_id a]"
  by (cases "replay env a")
     (simp_all add: replay_one_def Let_def deleteOfflineForm_def console_write_def split: option.split)

lemma replay_one_store:
  "replay env a \<noteq> Pending \<Longrightarrow>
   forms_store (snd (replay_one env a s)) =
     (if replay_ok env a \<and> delete_error env (form_id a) = None
      then filter (\<lambda>f. form_id f \<noteq> form_id a) (forms_store s) else forms_store s)"
  by (cases "replay env a")
     (simp_all add: replay_one_def Let_def deleteOfflineForm_def console_write_def replay_ok_def
       split: option.split)

lemma replay_one_console:
  "set (console s) \<subseteq> set (console (snd (replay_one env a s)))"
  by (cases "replay env a")
     (auto simp add: replay_one_def Let_def deleteOfflineForm_def console_write_def split: option.split)

lemma replay_one_logs_failed_delete:
  "replay env a = Fulfilled resp \<Longrightarrow> ok resp \<Longrightarrow> delete_error env (form_id a) = Some e \<Longrightarrow>
   LogError ''Failed to submit offline form:'' e \<in> set (console (snd (replay_one env a s)))"
  by (simp add: replay_one_def Let_def deleteOfflineForm_def console_write_def)

lemma replay_loop_Cons:
  "replay env a \<noteq> Pending \<Longrightarrow>
   replay_loop env (a # fs) s = replay_loop env fs (snd (replay_one env a s))"
  using replay_one_settles [of env a s]
  by (cases "replay_one env a s") simp

lemma replay_loop_completes:
  "\<forall>f \<in> set fs. replay env f \<noteq> Pending \<Longrightarrow> fst (replay_loop env fs s)"
  by (induction fs arbitrary: s) (simp_all add: replay_loop_Cons del: replay_loop.simps(2))

lemma replay_loop_posted:
  "\<forall>f \<in> set fs. replay env f \<noteq> Pending \<Longrightarrow>
   posted (snd (replay_loop env fs s)) = posted s @ map form_id fs"
  by (induction fs arbitrary: s)
     (simp_all add: replay_loop_Cons replay_one_posted del: replay_loop.simps(2))

lemma replay_loop_console:
  "\<forall>f \<in> set fs. replay env f \<noteq> Pending \<Longrightarrow>
   set (console s) \<subseteq> set (console (snd (replay_loop env fs s)))"
proof (induction fs arbitrary: s)
  case Nil
  then show ?case by simp
next
  case (Cons a fs)
  then have "set (console (snd (replay_one env a s))) \<subseteq>
             set (console (snd (replay_loop env (a # fs) s)))"
    by (simp add: replay_loop_Cons del: replay_loop.simps(2))
  with replay_one_console [of s env a] show ?case by blast
qed

lemma replay_loop_store:
  "\<forall>f \<in> set fs. replay env f \<noteq> Pending \<Longrightarrow>
   forms_store (snd (replay_loop env fs s)) =
     filter (\<lambda>g. form_id g \<notin>
                 form_id ` {f \<in> set fs. replay_ok env f \<and> delete_error env (form_id f) = None})
       (forms_store s)"
proof (induction fs arbitrary: s)
  case Nil
  then show ?case by simp
next
  case (Cons a fs)
  let ?gone = "\<lambda>xs. form_id ` {f \<in> set xs. replay_ok env f \<and> delete_error env (form_id f) = None}"
  from Cons.prems have settle: "\<forall>f \<in> set fs. replay env f \<noteq> Pending"
    and a: "replay env a \<noteq> Pending"
    by simp_all
  have step: "forms_store (snd (replay_loop env (a # fs) s)) =
      filter (\<lambda>g. form_id g \<notin> ?gone fs) (forms_store (snd (replay_one env a s)))"
    using Cons.IH [OF settle] by (simp add: replay_loop_Cons [OF a] del: replay_loop.simps(2))
  show ?case
  proof (cases "replay_ok env a \<and> delete_error env (form_id a) = None")
    case True
    then have "forms_store (snd (replay_one env a s)) =
               filter (\<lambda>f. form_id f \<noteq> form_id a) (forms_store s)"
      using replay_one_store [OF a, of s] by simp
    with step have "forms_store (snd (replay_loop env (a # fs) s)) =
      filter (\<lambda>g. form_id g \<notin> ?gone fs \<and> form_id g \<noteq> form_id a) (forms_store s)"
      by (simp add: conj_commute)
    also have "\<dots> = filter (\<lambda>g. form_id g \<notin> ?gone (a # fs)) (forms_store s)"
      using True by (intro filter_cong refl) auto
    finally show ?thesis .
  next
    case False
    then have "forms_store (snd (replay_one env a s)) = forms_store s"
      using replay_one_store [OF a, of s] by auto
    with step have "forms_store (snd (replay_loop env (a # fs) s)) =
      filter (\<lambda>g. form_id g \<notin> ?gone fs) (forms_store s)"
      by simp
    also have "\<dots> = filter (\<lambda>g. form_id g \<notin> ?gone (a # fs)) (forms_store s)"
      using False by (intro filter_cong refl) auto
    finally show ?thesis .
  qed
qed

lemma replay_loop_logs_failed_delete:
  assumes "\<forall>f \<in> set fs. replay env f \<noteq> Pending"
    and "a \<in> set fs" and "replay env a = Fulfilled resp" and "ok resp"
    and "delete_error env (form_id a) = Some e"
  shows "LogError ''Failed to submit offline form:'' e \<in> set (console (snd (replay_loop env fs s)))"
  using assms
proof (induction fs arbitrary: s)
  case Nil
  then show ?case by simp
next
  case (Cons b fs)
  from Cons.prems have settle: "\<forall>f \<in> set fs. replay env f \<noteq> Pending"
    and b: "replay env b \<noteq> Pending"
    by simp_all
  have unfold: "replay_loop env (b # fs) s = replay_loop env fs (snd (replay_one env b s))"
    by (rule replay_loop_Cons [OF b])
  show ?case
  proof (cases "a = b")
    case True
    with Cons.prems have "LogError ''Failed to submit offline form:'' e
        \<in> set (console (snd (replay_one env b s)))"
      by (simp add: replay_one_logs_failed_delete)
    with replay_loop_console [OF settle, of "snd (replay_one env b s)"] show ?thesis
      unfolding unfold by blast
  next
    case False
    with Cons.prems have "a \<in> set fs" by simp
    with Cons.IH [OF settle _ Cons.prems(3,4,5)] show ?thesis
      unfolding unfold by blast
  qed
qed

lemma distinct_filter_ids:
  "distinct (map form_id xs) \<Longrightarrow>
   filter (\<lambda>g. form_id g \<notin> form_id ` {f \<in> set xs. P f}) xs = filter (\<lambda>g. \<not> P g) xs"
proof (rule filter_cong [OF refl])
  fix g
  assume d: "distinct (map form_id xs)" and g: "g \<in> set xs"
  from d have "inj_on form_id (set xs)"
    by (simp add: distinct_map)
  with g show "(form_id g \<notin> form_id ` {f \<in> set xs. P f}) = (\<not> P g)"
    by (auto dest: inj_onD)
qed


lemma handle_unfold:
  assumes "open_error env = None" and "getAll_error env = None"
    and "\<forall>f \<in> set (forms_store s). replay env f \<noteq> Pending"
  shows "handleOfflineFormSubmission env s = (Fulfilled (), snd (replay_loop env (forms_store s) s))"
proof -
  have "fst (replay_loop env (forms_store s) s)"
    using assms(3) by (rule replay_loop_completes)
  then show ?thesis
    using assms(1,2)
    by (cases "replay_loop env (forms_store s) s")
       (simp add: handleOfflineFormSubmission_def openDB_def getOfflineForms_def)
qed

text \<open>
  C8: with a store that opens, reads and deletes, and POSTs that all settle,
  one run of \<^verbatim>\<open>handleOfflineFormSubmission\<close> POSTs every stored record once,
  in the order of the store, whatever the outcomes of the earlier POSTs, and
  leaves in the store exactly the records whose POST was rejected or
  answered without \<^verbatim>\<open>ok\<close>.
\<close>

theorem drain_replays_each_and_deletes_successes:
  assumes "open_error env = None" and "getAll_error env = None"
    and "\<forall>f \<in> set (forms_store s). delete_error env (form_id f) = None"
    and "distinct (map form_id (forms_store s))"
    and "\<forall>f \<in> set (forms_store s). replay env f \<noteq> Pending"
  shows "fst (handleOfflineFormSubmission env s) = Fulfilled () \<and>
         posted (snd (handleOfflineFormSubmission env s)) = posted s @ map form_id (forms_store s) \<and>
         forms_store (snd (handleOfflineFormSubmission env s)) =
           filter (\<lambda>f. \<not> replay_ok env f) (forms_store s)"
proof -
  note u = handle_unfold [OF assms(1,2,5)]
  have "{f \<in> set (forms_store s). replay_ok env f \<and> delete_error env (form_id f) = None} =
        {f \<in> set (forms_store s). replay_ok env f}"
    using assms(3) by auto
  then have "forms_store (snd (replay_loop env (forms_store s) s)) =
        filter (\<lambda>g. form_id g \<notin> form_id ` {f \<in> set (forms_store s). replay_ok env f}) (forms_store s)"
    using replay_loop_store [OF assms(5), of s] by simp
  also have "\<dots> = filter (\<lambda>f. \<not> replay_ok env f) (forms_store s)"
    using assms(4) by (rule distinct_filter_ids)
  finally show ?thesis
    by (simp add: u replay_loop_posted [OF assms(5)])
qed

lemma ex_replay_B_fails:
  "replay env_B_fails form_A = Fulfilled created"
  "replay env_B_fails form_B = Rejected FetchError"
  "replay env_B_fails form_C = Fulfilled created"
  by (simp_all add: env_B_fails_def form_A_def form_B_def form_C_def)

lemma ex_created_ok: "ok created"
  by (simp add: ok_def created_def)

text \<open>A, B and C are queued and only the POST of B is rejected: B alone stays.\<close>

theorem drain_replays_each_and_deletes_successes_witness:
  "open_error env_B_fails = None \<and> getAll_error env_B_fails = None \<and>
   distinct (map form_id (forms_store queue_ABC)) \<and>
   fst (handleOfflineFormSubmission env_B_fails queue_ABC) = Fulfilled () \<and>
   posted (snd (handleOfflineFormSubmission env_B_fails queue_ABC)) = [1, 2, 3] \<and>
   forms_store (snd (handleOfflineFormSubmission env_B_fails queue_ABC)) = [form_B]"
proof -
  have o: "open_error env_B_fails = None" and g: "getAll_error env_B_fails = None"
    by (simp_all add: env_B_fails_def)
  have q: "forms_store queue_ABC = [form_A, form_B, form_C]" and p: "posted queue_ABC = []"
    by (simp_all add: queue_ABC_def)
  have d: "\<forall>f \<in> set (forms_store queue_ABC). delete_error env_B_fails (form_id f) = None"
    by (simp add: env_B_fails_def)
  have i: "distinct (map form_id (forms_store queue_ABC))"
    by (simp add: q form_A_def form_B_def form_C_def)
  have n: "\<forall>f \<in> set (forms_store queue_ABC). replay env_B_fails f \<noteq> Pending"
    by (simp add: q ex_replay_B_fails)
  have r: "replay_ok env_B_fails form_A" "\<not> replay_ok env_B_fails form_B" "replay_ok env_B_fails form_C"
    by (simp_all add: replay_ok_def ex_replay_B_fails ex_created_ok)
  have ids: "form_id form_A = 1" "form_id form_B = 2" "form_id form_C = 3"
    by (simp_all add: form_A_def form_B_def form_C_def)
  show ?thesis
    using drain_replays_each_and_deletes_successes [OF o g d i n]
    by (simp add: o g q p r ids)
qed

text \<open>
  C9, as stated, fails: when the database cannot be opened the outer \<^verbatim>\<open>catch\<close>
  logs the error and the handler's promise is fulfilled, not rejected.
\<close>

theorem drain_fulfils_when_store_cannot_open:
  "open_error env_db_closed = Some DBError \<and>
   fst (handleOfflineFormSubmission env_db_closed queue_ABC) = Fulfilled () \<and>
   fst (handleOfflineFormSubmission env_db_closed queue_ABC) \<noteq> Rejected DBError"
  by (simp add: handleOfflineFormSubmission_def openDB_def env_db_closed_def env_all_fine_def)

text \<open>
  C9, amended: when the database cannot be opened, or its records cannot be
  read, \<^verbatim>\<open>handleOfflineFormSubmission\<close> writes the error to the console, posts
  nothing, leaves the store as it was, and its promise is fulfilled; the
  caller is not told of the failure.
\<close>

theorem drain_logs_and_swallows_storage_failure:
  "(open_error env = Some e \<longrightarrow>
      handleOfflineFormSubmission env s =
        (Fulfilled (), console_write (LogError ''Error handling offline forms:'' e) s)) \<and>
   (open_error env = None \<and> getAll_error env = Some e \<longrightarrow>
      handleOfflineFormSubmission env s =
        (Fulfilled (), console_write (LogError ''Error handling offline forms:'' e) s))"
proof (intro conjI impI)
  assume "open_error env = Some e"
  then have "openDB env = Inl e"
    by (simp add: openDB_def)
  then show "handleOfflineFormSubmission env s =
        (Fulfilled (), console_write (LogError ''Error handling offline forms:'' e) s)"
    by (simp add: handleOfflineFormSubmission_def)
next
  assume "open_error env = None \<and> getAll_error env = Some e"
  then have "openDB env = Inr ()" and "getOfflineForms env s = Inl e"
    by (simp_all add: openDB_def getOfflineForms_def)
  then show "handleOfflineFormSubmission env s =
        (Fulfilled (), console_write (LogError ''Error handling offline forms:'' e) s)"
    by (simp add: handleOfflineFormSubmission_def)
qed

text \<open>A database that opens but cannot be read, and one that does not open.\<close>

theorem drain_logs_and_swallows_storage_failure_witness:
  "open_error env_unreadable = None \<and> getAll_error env_unreadable = Some DBError \<and>
   handleOfflineFormSubmission env_unreadable queue_ABC =
     (Fulfilled (), queue_ABC\<lparr>console := [LogError ''Error handling offline forms:'' DBError]\<rparr>) \<and>
   open_error env_db_closed = Some DBError \<and>
   handleOfflineFormSubmission env_db_closed queue_ABC =
     (Fulfilled (), queue_ABC\<lparr>console := [LogError ''Error handling offline forms:'' DBError]\<rparr>)"
proof -
  have o: "open_error env_unreadable = None" and g: "getAll_error env_unreadable = Some DBError"
    and c: "open_error env_db_closed = Some DBError"
    by (simp_all add: env_unreadable_def env_db_closed_def env_all_fine_def)
  have w: "console_write (LogError ''Error handling offline forms:'' DBError) queue_ABC =
           queue_ABC\<lparr>console := [LogError ''Error handling offline forms:'' DBError]\<rparr>"
    by (simp add: console_write_def queue_ABC_def)
  show ?thesis
    using drain_logs_and_swallows_storage_failure [of env_unreadable DBError queue_ABC]
      drain_logs_and_swallows_storage_failure [of env_db_closed DBError queue_ABC]
    by (simp add: o g c w)
qed

lemma count_list_mem: "x \<in> set xs \<Longrightarrow> 1 \<le> count_list xs x"
  by (induction xs) auto

text \<open>
  C10: when the POST of a stored record is answered \<^verbatim>\<open>ok\<close> and the deletion of
  the record then fails, the inner \<^verbatim>\<open>catch\<close> logs the error, the record stays
  in the store, the run goes on to POST the remaining records and is
  fulfilled; the next run POSTs the record again, so that over the two runs
  its key has been posted at least twice.
\<close>

theorem failed_delete_is_replayed_again:
  assumes "open_error env1 = None" and "getAll_error env1 = None"
    and "\<forall>g \<in> set (forms_store s). replay env1 g \<noteq> Pending"
    and "open_error env2 = None" and "getAll_error env2 = None"
    and "\<forall>g \<in> set (forms_store s). replay env2 g \<noteq> Pending"
    and "f \<in> set (forms_store s)"
    and "replay env1 f = Fulfilled resp" and "ok resp"
    and "delete_error env1 (form_id f) = Some e"
  shows "fst (handleOfflineFormSubmission env1 s) = Fulfilled () \<and>
         LogError ''Failed to submit offline form:'' e
           \<in> set (console (snd (handleOfflineFormSubmission env1 s))) \<and>
         f \<in> set (forms_store (snd (handleOfflineFormSubmission env1 s))) \<and>
         posted (snd (handleOfflineFormSubmission env1 s)) = posted s @ map form_id (forms_store s) \<and>
         2 \<le> count_list
                (posted (snd (handleOfflineFormSubmission env2 (snd (handleOfflineFormSubmission env1 s)))))
                (form_id f)"
proof -
  let ?s1 = "snd (handleOfflineFormSubmission env1 s)"
  let ?s2 = "snd (handleOfflineFormSubmission env2 ?s1)"
  note u1 = handle_unfold [OF assms(1,2,3)]
  have store1: "forms_store ?s1 =
      filter (\<lambda>g. form_id g \<notin>
                 form_id ` {f \<in> set (forms_store s). replay_ok env1 f \<and> delete_error env1 (form_id f) = None})
        (forms_store s)"
    using replay_loop_store [OF assms(3), of s] by (simp add: u1)
  have kept: "f \<in> set (forms_store ?s1)"
    unfolding store1 using assms(7,10) by auto
  have posted1: "posted ?s1 = posted s @ map form_id (forms_store s)"
    by (simp add: u1 replay_loop_posted [OF assms(3)])
  have logged: "LogError ''Failed to submit offline form:'' e \<in> set (console ?s1)"
    using replay_loop_logs_failed_delete [OF assms(3,7,8,9,10), of s] by (simp add: u1)
  have settle2: "\<forall>g \<in> set (forms_store ?s1). replay env2 g \<noteq> Pending"
    unfolding store1 using assms(6) by simp
  note u2 = handle_unfold [OF assms(4,5) settle2]
  have posted2: "posted ?s2 = posted s @ map form_id (forms_store s) @ map form_id (forms_store ?s1)"
    by (simp add: u2 replay_loop_posted [OF settle2] posted1)
  have "1 \<le> count_list (map form_id (forms_store s)) (form_id f)"
    using assms(7) by (intro count_list_mem) simp
  moreover have "1 \<le> count_list (map form_id (forms_store ?s1)) (form_id f)"
    using kept by (intro count_list_mem) simp
  ultimately have twice: "2 \<le> count_list (posted ?s2) (form_id f)"
    unfolding posted2 by simp
  from kept posted1 logged twice show ?thesis
    by (simp add: u1)
qed

text \<open>
  Every POST is accepted and the deletion of B fails: B is still stored
  after the first run and is posted again by the second.
\<close>

theorem failed_delete_is_replayed_again_witness:
  "form_B \<in> set (forms_store queue_ABC) \<and>
   replay env_delete_B_fails form_B = Fulfilled created \<and> ok created \<and>
   delete_error env_delete_B_fails (form_id form_B) = Some DBError \<and>
   fst (handleOfflineFormSubmission env_delete_B_fails queue_ABC) = Fulfilled () \<and>
   form_B \<in> set (forms_store (snd (handleOfflineFormSubmission env_delete_B_fails queue_ABC))) \<and>
   posted (snd (handleOfflineFormSubmission env_delete_B_fails queue_ABC)) = [1, 2, 3] \<and>
   2 \<le> count_list
          (posted (snd (handleOfflineFormSubmission env_all_fine
                     (snd (handleOfflineFormSubmission env_delete_B_fails queue_ABC)))))
          (form_id form_B)"
proof -
  have o1: "open_error env_delete_B_fails = None" and g1: "getAll_error env_delete_B_fails = None"
    and n1: "\<forall>g \<in> set (forms_store queue_ABC). replay env_delete_B_fails g \<noteq> Pending"
    by (simp_all add: env_delete_B_fails_def)
  have o2: "open_error env_all_fine = None" and g2: "getAll_error env_all_fine = None"
    and n2: "\<forall>g \<in> set (forms_store queue_ABC). replay env_all_fine g \<noteq> Pending"
    by (simp_all add: env_all_fine_def)
  have m: "form_B \<in> set (forms_store queue_ABC)"
    by (simp add: queue_ABC_def)
  have r: "replay env_delete_B_fails form_B = Fulfilled created"
    by (simp add: env_delete_B_fails_def)
  have d: "delete_error env_delete_B_fails (form_id form_B) = Some DBError"
    by (simp add: env_delete_B_fails_def form_B_def)
  have ids: "posted queue_ABC @ map form_id (forms_store queue_ABC) = [1, 2, 3]"
    by (simp add: queue_ABC_def form_A_def form_B_def form_C_def)
  show ?thesis
    using failed_delete_is_replayed_again [OF o1 g1 n1 o2 g2 n2 m r ex_created_ok d]
    by (simp add: m r d ex_created_ok ids)
qed

end
